theory Spec2Isabelle
  imports Main "HOL-Library.Word"
begin

section \<open>The scaffold builder of estrutura.py\<close>

text \<open>
  The script estrutura.py holds a literal description of a project skeleton
  (\<open>estrutura_projeto\<close>), a recursive procedure that realises such a description on
  disk (\<open>criar_estrutura\<close>) and three top-level statements that create the base
  directory, run the procedure and print a confirmation.

  The procedure is embedded as it is written. What it calls is the Python library on a
  POSIX system: \<open>os.path.join\<close>, \<open>os.makedirs(..., exist_ok=True)\<close>,
  \<open>open(..., 'w')\<close>, \<open>write\<close> and the \<open>with\<close> statement. These are modelled
  on an explicit file system: a partial map from locations (the list of names leading
  from the root to an entry) to entries, without symbolic links, with case-sensitive
  names.
\<close>

subsection \<open>Tree descriptions\<close>

text \<open>
  A Python \<open>str\<close> is a sequence of code points. File contents are kept as such
  (\<open>unicode\<close>); a number that is no code point makes every encoder fail. Names are
  kept as \<open>string\<close>: a character stands for the code point of the same number
  (U+0000 to U+00FF), which covers every name of the script.
\<close>

type_synonym unicode = "nat list"

definition u :: "string \<Rightarrow> unicode" where
  "u s = map of_char s"

text \<open>
  A value of the description is a \<open>dict\<close> (a directory) or a \<open>str\<close> (a file).
  A \<open>dict\<close> is an association list in insertion order, which is the order in which
  \<open>items()\<close> iterates; its keys are distinct (\<open>unique_keys\<close> below).
\<close>

datatype tree_node = File unicode | Directory "(string \<times> tree_node) list"

type_synonym dict = "(string \<times> tree_node) list"

definition estrutura_projeto :: dict where
  "estrutura_projeto =
    [(''package.json'', File (u '''')),
     (''server.js'', File (u ''// Arquivo principal do servidor'')),
     (''config'', Directory
        [(''database.js'', File (u ''// Configura'' @ [231, 227] @ u ''o do SQLite''))]),
     (''routes'', Directory
        [(''auth.js'', File (u ''// Rotas de autentica'' @ [231, 227] @ u ''o'')),
         (''games.js'', File (u ''// Rotas de gerenciamento de jogos'')),
         (''users.js'', File (u ''// Rotas de gerenciamento de usu'' @ [225] @ u ''rios''))]),
     (''services'', Directory
        [(''wikipediaService.js'',
          File (u ''// Integra'' @ [231, 227] @ u ''o com a API da Wikip'' @ [233] @ u ''dia''))]),
     (''models'', Directory
        [(''User.js'', File (u ''// Modelo de usu'' @ [225] @ u ''rio'')),
         (''GameSession.js'', File (u ''// Modelo de sess'' @ [227] @ u ''o de jogo'')),
         (''PathHistory.js'', File (u ''// Modelo de hist'' @ [243] @ u ''rico de percurso''))]),
     (''utils'', Directory
        [(''auth.js'', File (u ''// Fun'' @ [231, 245] @ u ''es de autentica'' @ [231, 227] @ u ''o'')),
         (''gameLogic.js'', File (u ''// L'' @ [243] @ u ''gica do jogo''))])]"

subsection \<open>The file system and the process\<close>

type_synonym byte = "8 word"

type_synonym location = "string list"

datatype entry = Dir | Reg "byte list"

type_synonym fsmap = "location \<rightharpoonup> entry"

text \<open>
  The encoding \<open>open\<close> uses for a text file when the call names none: the preferred
  encoding of the locale.
\<close>

datatype codec = UTF8 | Latin1 | ASCII

text \<open>
  An error is the exception a library call raised, with the argument of the call.
  The script catches none of them.
\<close>

datatype error =
  MakedirsError string | OpenError string | EncodeError unicode | PrintError string

text \<open>
  The standard output of the process, \<open>sys.stdout\<close>: a stream that takes what is
  written, no stream at all (the interpreter was started with the descriptor closed),
  or a stream that refuses the write (a full device, a closed pipe).
\<close>

datatype stream = Writable | Missing | Unwritable

record world =
  files :: fsmap
  cwd :: location
  readonly :: "location list"
  encoding :: codec
  open_files :: "location list"
  sys_stdout :: stream
  stdout :: "string list"

text \<open>
  \<open>readonly\<close> lists the directories in which the process may not create an entry;
  \<open>open_files\<close> lists the files the process holds open; \<open>stdout\<close> lists the
  lines that reached the standard output.
\<close>

type_synonym 'a result = "(error + 'a) \<times> world"

subsection \<open>Paths\<close>

text \<open>\<open>posixpath.join(a, b)\<close> for one \<open>b\<close>.\<close>

definition os_path_join :: "string \<Rightarrow> string \<Rightarrow> string" where
  "os_path_join a b =
     (if b \<noteq> [] \<and> hd b = CHR ''/'' then b
      else if a = [] \<or> last a = CHR ''/'' then a @ b
      else a @ ''/'' @ b)"

text \<open>The components of a path: the pieces between the separators.\<close>

fun split_sep :: "string \<Rightarrow> string list" where
  "split_sep [] = [[]]"
| "split_sep (c # cs) =
     (if c = CHR ''/'' then [] # split_sep cs
      else (c # hd (split_sep cs)) # tl (split_sep cs))"

text \<open>A path that starts with the separator is resolved from the root, any other from
  the current directory.\<close>

definition start_dir :: "world \<Rightarrow> string \<Rightarrow> location" where
  "start_dir w p = (if p \<noteq> [] \<and> hd p = CHR ''/'' then [] else cwd w)"

text \<open>
  Path resolution walks the components from the start directory. Every directory it
  passes must exist; an empty component and \<open>.\<close> stay, \<open>..\<close> goes to the parent
  (the root is its own parent). No entry has a name with a NUL character.
\<close>

fun walk_dirs :: "fsmap \<Rightarrow> location \<Rightarrow> string list \<Rightarrow> location option" where
  "walk_dirs m cur [] = (if m cur = Some Dir then Some cur else None)"
| "walk_dirs m cur (c # cs) =
     (if m cur \<noteq> Some Dir then None
      else if c = [] \<or> c = ''.'' then walk_dirs m cur cs
      else if c = ''..'' then walk_dirs m (butlast cur) cs
      else if CHR 0x00 \<in> set c then None
      else walk_dirs m (cur @ [c]) cs)"

subsection \<open>The library calls\<close>

text \<open>
  \<open>os.makedirs(name, exist_ok=True)\<close> creates the directories of \<open>name\<close> that do
  not exist, from the left. It raises when a component is a file, when a directory
  may not be created, when a component holds a NUL character, and for the empty path.
  The directories made before the failure stay.
\<close>

fun ensure_dirs ::
  "location list \<Rightarrow> location \<Rightarrow> string list \<Rightarrow> fsmap \<Rightarrow> location option \<times> fsmap" where
  "ensure_dirs ro cur [] m = (if m cur = Some Dir then Some cur else None, m)"
| "ensure_dirs ro cur (c # cs) m =
     (if m cur \<noteq> Some Dir then (None, m)
      else if c = [] \<or> c = ''.'' then ensure_dirs ro cur cs m
      else if c = ''..'' then ensure_dirs ro (butlast cur) cs m
      else if CHR 0x00 \<in> set c then (None, m)
      else (case m (cur @ [c]) of
              Some Dir \<Rightarrow> ensure_dirs ro (cur @ [c]) cs m
            | Some (Reg _) \<Rightarrow> (None, m)
            | None \<Rightarrow>
                if cur \<in> set ro then (None, m)
                else ensure_dirs ro (cur @ [c]) cs (m(cur @ [c] \<mapsto> Dir))))"

definition os_makedirs :: "string \<Rightarrow> world \<Rightarrow> unit result" where
  "os_makedirs name w =
     (if name = [] then (Inl (MakedirsError name), w)
      else (case ensure_dirs (readonly w) (start_dir w name) (split_sep name) (files w) of
              (None, m) \<Rightarrow> (Inl (MakedirsError name), w\<lparr>files := m\<rparr>)
            | (Some _, m) \<Rightarrow> (Inr (), w\<lparr>files := m\<rparr>)))"

text \<open>
  \<open>open(path, 'w')\<close> resolves the directory part of the path and creates the file
  there, or truncates it when it exists. It creates no directory. It raises when the
  directory part does not resolve, when the last component names a directory, when the
  file is missing and may not be created, and when the path holds a NUL character.
  \<open>open_target\<close> is the location of the file it opens, if it opens one; the
  result of \<open>open\<close> is that open file, empty.
\<close>

definition open_target :: "world \<Rightarrow> string \<Rightarrow> location option" where
  "open_target w path =
     (if CHR 0x00 \<in> set path then None
      else (case walk_dirs (files w) (start_dir w path) (butlast (split_sep path)) of
              None \<Rightarrow> None
            | Some d \<Rightarrow>
                (let n = last (split_sep path) in
                 if n = [] \<or> n = ''.'' \<or> n = ''..'' then None
                 else (case files w (d @ [n]) of
                         Some Dir \<Rightarrow> None
                       | Some (Reg _) \<Rightarrow> Some (d @ [n])
                       | None \<Rightarrow> if d \<in> set (readonly w) then None else Some (d @ [n])))))"

definition os_open_w :: "string \<Rightarrow> world \<Rightarrow> location result" where
  "os_open_w path w =
     (case open_target w path of
        None \<Rightarrow> (Inl (OpenError path), w)
      | Some t \<Rightarrow>
          (Inr t, w\<lparr>files := (files w)(t \<mapsto> Reg []), open_files := t # open_files w\<rparr>))"

text \<open>The encoders. A surrogate has no UTF-8 encoding.\<close>

definition encode_utf8 :: "nat \<Rightarrow> byte list option" where
  "encode_utf8 c =
     (if c < 0x80 then Some [of_nat c]
      else if c < 0x800 then Some [of_nat (0xC0 + c div 64), of_nat (0x80 + c mod 64)]
      else if 0xD800 \<le> c \<and> c \<le> 0xDFFF then None
      else if c < 0x10000 then
        Some [of_nat (0xE0 + c div 4096), of_nat (0x80 + c div 64 mod 64),
              of_nat (0x80 + c mod 64)]
      else if c < 0x110000 then
        Some [of_nat (0xF0 + c div 262144), of_nat (0x80 + c div 4096 mod 64),
              of_nat (0x80 + c div 64 mod 64), of_nat (0x80 + c mod 64)]
      else None)"

definition encode_char :: "codec \<Rightarrow> nat \<Rightarrow> byte list option" where
  "encode_char enc c =
     (case enc of
        UTF8 \<Rightarrow> encode_utf8 c
      | Latin1 \<Rightarrow> (if c < 0x100 then Some [of_nat c] else None)
      | ASCII \<Rightarrow> (if c < 0x80 then Some [of_nat c] else None))"

fun encode :: "codec \<Rightarrow> unicode \<Rightarrow> byte list option" where
  "encode enc [] = Some []"
| "encode enc (c # cs) =
     (case encode_char enc c of
        None \<Rightarrow> None
      | Some bs \<Rightarrow> (case encode enc cs of None \<Rightarrow> None | Some rest \<Rightarrow> Some (bs @ rest)))"

text \<open>
  \<open>arquivo.write(conteudo)\<close> encodes the text and appends the bytes to the file. It
  raises when the text has no encoding, and then writes nothing.
\<close>

definition file_write :: "location \<Rightarrow> unicode \<Rightarrow> world \<Rightarrow> unit result" where
  "file_write h s w =
     (case encode (encoding w) s of
        None \<Rightarrow> (Inl (EncodeError s), w)
      | Some bs \<Rightarrow>
          (Inr (),
           w\<lparr>files := (files w)(h \<mapsto>
                Reg ((case files w h of Some (Reg old) \<Rightarrow> old | _ \<Rightarrow> []) @ bs))\<rparr>))"

definition file_close :: "location \<Rightarrow> world \<Rightarrow> world" where
  "file_close h w = w\<lparr>open_files := remove1 h (open_files w)\<rparr>"

text \<open>
  \<open>with open(caminho, 'w') as arquivo: arquivo.write(conteudo)\<close>. When \<open>open\<close>
  raises there is no file to close. Otherwise the file is closed when the block is
  left, by its end or by an exception, and the exception goes on.
\<close>

definition with_open_write :: "string \<Rightarrow> unicode \<Rightarrow> world \<Rightarrow> unit result" where
  "with_open_write caminho conteudo w =
     (case os_open_w caminho w of
        (Inl e, w1) \<Rightarrow> (Inl e, w1)
      | (Inr arquivo, w1) \<Rightarrow>
          (case file_write arquivo conteudo w1 of
             (r, w2) \<Rightarrow> (r, file_close arquivo w2)))"

text \<open>
  \<open>print(s)\<close> writes the line to \<open>sys.stdout\<close>. It does nothing when there is no
  stream, and raises when the stream refuses the write.
\<close>

definition print :: "string \<Rightarrow> world \<Rightarrow> unit result" where
  "print s w =
     (case sys_stdout w of
        Writable \<Rightarrow> (Inr (), w\<lparr>stdout := stdout w @ [s]\<rparr>)
      | Missing \<Rightarrow> (Inr (), w)
      | Unwritable \<Rightarrow> (Inl (PrintError s), w))"

subsection \<open>The procedure and the script\<close>

text \<open>
  The number of nodes of a description. Each recursive call of the procedure is on a
  description with fewer nodes: the \<open>dict\<close> of a directory, or the items that
  are left.
\<close>

fun node_count :: "dict \<Rightarrow> nat" where
  "node_count [] = 0"
| "node_count ((nome, conteudo) # resto) =
     1 + (case conteudo of Directory sub \<Rightarrow> node_count sub | File s \<Rightarrow> 0) + node_count resto"

function criar_estrutura :: "string \<Rightarrow> dict \<Rightarrow> world \<Rightarrow> unit result" where
  "criar_estrutura base_path [] w = (Inr (), w)"
| "criar_estrutura base_path ((nome, conteudo) # resto) w =
     (let caminho = os_path_join base_path nome in
      case conteudo of
        Directory sub \<Rightarrow>
          (case os_makedirs caminho w of
             (Inl e, w1) \<Rightarrow> (Inl e, w1)
           | (Inr _, w1) \<Rightarrow>
               (case criar_estrutura caminho sub w1 of
                  (Inl e, w2) \<Rightarrow> (Inl e, w2)
                | (Inr _, w2) \<Rightarrow> criar_estrutura base_path resto w2))
      | File s \<Rightarrow>
          (case with_open_write caminho s w of
             (Inl e, w1) \<Rightarrow> (Inl e, w1)
           | (Inr _, w1) \<Rightarrow> criar_estrutura base_path resto w1))"
  by pat_completeness auto
termination
  by (relation "measure (\<lambda>(base_path, estrutura, w). node_count estrutura)") auto

definition diretorio_base :: string where
  "diretorio_base = ''./''"

definition mensagem :: string where
  "mensagem = ''Estrutura do projeto '' @ [CHR 0x27] @ diretorio_base @ [CHR 0x27]
                @ '' criada com sucesso!''"

definition script :: "world \<Rightarrow> unit result" where
  "script w =
     (case os_makedirs diretorio_base w of
        (Inl e, w1) \<Rightarrow> (Inl e, w1)
      | (Inr _, w1) \<Rightarrow>
          (case criar_estrutura diretorio_base estrutura_projeto w1 of
             (Inl e, w2) \<Rightarrow> (Inl e, w2)
           | (Inr _, w2) \<Rightarrow> print mensagem w2))"

subsection \<open>The walk as a sequence of library calls\<close>

text \<open>
  The calls of the walk in the order in which the procedure makes them: a directory
  before its children, the children of a directory before its next sibling.
\<close>

datatype op = Makedirs string | Write string unicode

fun perform :: "op \<Rightarrow> world \<Rightarrow> unit result" where
  "perform (Makedirs p) w = os_makedirs p w"
| "perform (Write p s) w = with_open_write p s w"

fun walk_ops :: "string \<Rightarrow> dict \<Rightarrow> op list" where
  "walk_ops base_path [] = []"
| "walk_ops base_path ((nome, conteudo) # resto) =
     (let caminho = os_path_join base_path nome in
      case conteudo of
        Directory sub \<Rightarrow> Makedirs caminho # walk_ops caminho sub @ walk_ops base_path resto
      | File s \<Rightarrow> Write caminho s # walk_ops base_path resto)"


text \<open>The calls of a list up to the first that raises.\<close>

fun perform_until_error :: "op list \<Rightarrow> world \<Rightarrow> unit result" where
  "perform_until_error [] w = (Inr (), w)"
| "perform_until_error (x # xs) w =
     (case perform x w of (Inl e, w1) \<Rightarrow> (Inl e, w1) | (Inr _, w1) \<Rightarrow> perform_until_error xs w1)"

subsection \<open>What is on disk\<close>



text \<open>
  The directory in which the last component of a path is looked up: the path without
  its last component, resolved. \<open>open\<close> creates the file there.
\<close>

definition parent_dir :: "world \<Rightarrow> string \<Rightarrow> location option" where
  "parent_dir w path = walk_dirs (files w) (start_dir w path) (butlast (split_sep path))"

text \<open>The nodes of a description with the paths the procedure joins for them.\<close>

fun tree_paths :: "string \<Rightarrow> dict \<Rightarrow> (string \<times> tree_node) list" where
  "tree_paths base_path [] = []"
| "tree_paths base_path ((nome, conteudo) # resto) =
     (let caminho = os_path_join base_path nome in
      (caminho, conteudo)
        # (case conteudo of Directory sub \<Rightarrow> tree_paths caminho sub | File s \<Rightarrow> [])
        @ tree_paths base_path resto)"




text \<open>
  A name is simple when it is one path component that names an entry. The keys of a
  \<open>dict\<close> are distinct.
\<close>

definition simple_name :: "string \<Rightarrow> bool" where
  "simple_name n =
     (n \<noteq> [] \<and> n \<noteq> ''.'' \<and> n \<noteq> ''..'' \<and> CHR ''/'' \<notin> set n \<and> CHR 0x00 \<notin> set n)"




subsection \<open>The listed entries\<close>



subsection \<open>A small world\<close>

text \<open>
  A file system with the root and one directory, which is the current directory; every
  directory may be written. The runs of the examples start here.
\<close>

definition home_world :: "codec \<Rightarrow> stream \<Rightarrow> world" where
  "home_world enc out =
     \<lparr>files = [[] \<mapsto> Dir, [''home''] \<mapsto> Dir], cwd = [''home''], readonly = [],
      encoding = enc, open_files = [], sys_stdout = out, stdout = []\<rparr>"

section \<open>Properties\<close>

subsection \<open>What a call leaves untouched\<close>

text \<open>
  A library call changes the files and nothing else of the world: the current
  directory, the permissions, the encoding and the standard output stay, and every file
  it opened is closed again.
\<close>

lemma os_makedirs_frame: "os_makedirs p w = (r, w') \<Longrightarrow> w' = w\<lparr>files := files w'\<rparr>"
  by (auto simp: os_makedirs_def split: if_splits prod.splits option.splits)

lemma with_open_write_frame: "with_open_write p s w = (r, w') \<Longrightarrow> w' = w\<lparr>files := files w'\<rparr>"
  by (auto simp: with_open_write_def os_open_w_def file_write_def file_close_def
      split: if_splits prod.splits option.splits sum.splits)

lemma perform_frame: "perform x w = (r, w') \<Longrightarrow> w' = w\<lparr>files := files w'\<rparr>"
  by (cases x) (auto dest: os_makedirs_frame with_open_write_frame)

lemma perform_until_error_append:
  "perform_until_error (xs @ ys) w =
     (case perform_until_error xs w of
        (Inl e, w1) \<Rightarrow> (Inl e, w1)
      | (Inr _, w1) \<Rightarrow> perform_until_error ys w1)"
  by (induction xs arbitrary: w) (auto split: prod.splits sum.splits)

lemma criar_estrutura_walk:
  "criar_estrutura base_path estrutura w = perform_until_error (walk_ops base_path estrutura) w"
proof (induction base_path estrutura w rule: criar_estrutura.induct)
  case (1 base_path w)
  show ?case by simp
next
  case (2 base_path nome conteudo resto w)
  show ?case
  proof (cases conteudo)
    case (File s)
    with 2 show ?thesis
      by (auto simp: Let_def split: prod.splits sum.splits)
  next
    case (Directory sub)
    with 2 show ?thesis
      by (auto simp: Let_def perform_until_error_append split: prod.splits sum.splits)
  qed
qed

lemma perform_until_error_frame:
  "perform_until_error xs w = (r, w') \<Longrightarrow> w' = w\<lparr>files := files w'\<rparr>"
proof (induction xs arbitrary: w)
  case Nil
  then show ?case by auto
next
  case (Cons x xs)
  show ?case
  proof (cases "perform x w")
    case (Pair r1 w1)
    note p = perform_frame [OF Pair]
    show ?thesis
    proof (cases r1)
      case (Inl e)
      with Cons.prems Pair p show ?thesis by auto
    next
      case (Inr v)
      with Cons.prems Pair have "perform_until_error xs w1 = (r, w')" by simp
      from Cons.IH [OF this] p show ?thesis
        by (metis world.surjective world.update_convs(1))
    qed
  qed
qed


lemma criar_estrutura_frame:
  "criar_estrutura base_path estrutura w = (r, w') \<Longrightarrow> w' = w\<lparr>files := files w'\<rparr>"
  by (simp add: criar_estrutura_walk perform_until_error_frame)

lemma length_walk_ops: "length (walk_ops base_path estrutura) = node_count estrutura"
proof (induction base_path estrutura rule: walk_ops.induct)
  case (1 base_path)
  show ?case by simp
next
  case (2 base_path nome conteudo resto)
  then show ?case by (cases conteudo) (simp_all add: Let_def)
qed

lemma os_open_w_open_files:
  "open_files (snd (os_open_w caminho w)) =
     (case fst (os_open_w caminho w) of
        Inl e \<Rightarrow> open_files w
      | Inr arquivo \<Rightarrow> arquivo # open_files w)"
  by (simp add: os_open_w_def split: option.splits)

lemma with_open_write_open_files:
  "open_files (snd (with_open_write caminho conteudo w)) = open_files w"
  by (auto simp: with_open_write_def os_open_w_def file_write_def file_close_def
      split: prod.splits option.splits sum.splits)

lemma criar_estrutura_open_files:
  "open_files (snd (criar_estrutura base_path estrutura w)) = open_files w"
proof -
  obtain r w' where rw: "criar_estrutura base_path estrutura w = (r, w')"
    by (cases "criar_estrutura base_path estrutura w")
  from criar_estrutura_frame [OF rw] have "open_files w' = open_files (w\<lparr>files := files w'\<rparr>)"
    by simp
  with rw show ?thesis by simp
qed

subsection \<open>Paths of simple names\<close>

text \<open>
  Joining a simple name to a path adds one component: the path resolves below the
  directory the base path names.
\<close>

lemma split_sep_not_Nil [simp]: "split_sep p \<noteq> []"
  by (cases p) auto


lemma split_sep_plain: "CHR ''/'' \<notin> set n \<Longrightarrow> split_sep n = [n]"
  by (induction n) auto










lemma ensure_dirs_start_Dir: "ensure_dirs ro cur xs m = (Some d, m') \<Longrightarrow> m cur = Some Dir"
  by (cases xs) (auto split: if_splits)





lemma simple_name_split: "simple_name n \<Longrightarrow> split_sep n = [n]"
  by (simp add: simple_name_def split_sep_plain)















subsection \<open>The effect of the library calls\<close>

lemma with_open_write_eq:
  "with_open_write p s w =
     (case open_target w p of
        None \<Rightarrow> (Inl (OpenError p), w)
      | Some t \<Rightarrow>
          (case encode (encoding w) s of
             None \<Rightarrow> (Inl (EncodeError s), w\<lparr>files := (files w)(t \<mapsto> Reg [])\<rparr>)
           | Some bs \<Rightarrow> (Inr (), w\<lparr>files := (files w)(t \<mapsto> Reg bs)\<rparr>)))"
  by (simp add: with_open_write_def os_open_w_def file_write_def file_close_def
      split: option.splits)

lemma open_target_not_Dir: "open_target w p = Some t \<Longrightarrow> files w t \<noteq> Some Dir"
  by (auto simp: open_target_def Let_def split: if_splits option.splits entry.splits)

lemma ensure_dirs_keeps:
  "ensure_dirs ro cur xs m = (r, m') \<Longrightarrow> m p = Some e \<Longrightarrow> m' p = Some e"
proof (induction xs arbitrary: cur m)
  case Nil
  then show ?case by (auto split: if_splits)
next
  case (Cons x xs)
  show ?case
  proof (cases "m (cur @ [x])")
    case None
    with Cons.prems have "p \<noteq> cur @ [x]" by auto
    with None Cons.prems Cons.IH [of cur m] Cons.IH [of "butlast cur" m]
      Cons.IH [of "cur @ [x]" "m(cur @ [x] \<mapsto> Dir)"]
    show ?thesis by (auto simp del: fun_upd_apply simp: fun_upd_other split: if_splits)
  next
    case (Some a)
    with Cons.prems Cons.IH [of cur m] Cons.IH [of "butlast cur" m] Cons.IH [of "cur @ [x]" m]
    show ?thesis by (cases a) (auto split: if_splits)
  qed
qed

lemma ensure_dirs_new:
  "ensure_dirs ro cur xs m = (r, m') \<Longrightarrow> m p = None \<Longrightarrow> m' p = None \<or> m' p = Some Dir"
proof (induction xs arbitrary: cur m)
  case Nil
  then show ?case by (auto split: if_splits)
next
  case (Cons x xs)
  show ?case
  proof (cases "m (cur @ [x])")
    case None
    show ?thesis
    proof (cases "p = cur @ [x]")
      case True
      have "(m(cur @ [x] \<mapsto> Dir)) p = Some Dir" using True by simp
      note k = ensure_dirs_keeps [where m = "m(cur @ [x] \<mapsto> Dir)" and p = p and e = Dir, OF _ this]
      from None Cons.prems Cons.IH [of cur m] Cons.IH [of "butlast cur" m] k
      show ?thesis by (auto simp del: fun_upd_apply split: if_splits)
    next
      case False
      with None Cons.prems Cons.IH [of cur m] Cons.IH [of "butlast cur" m]
        Cons.IH [of "cur @ [x]" "m(cur @ [x] \<mapsto> Dir)"]
      show ?thesis by (auto simp del: fun_upd_apply simp: fun_upd_other split: if_splits)
    qed
  next
    case (Some a)
    with Cons.prems Cons.IH [of cur m] Cons.IH [of "butlast cur" m] Cons.IH [of "cur @ [x]" m]
    show ?thesis by (cases a) (auto split: if_splits)
  qed
qed

lemma walk_dirs_mono:
  "walk_dirs m cur xs = Some d \<Longrightarrow> (\<And>p. m p = Some Dir \<Longrightarrow> n p = Some Dir)
     \<Longrightarrow> walk_dirs n cur xs = Some d"
  by (induction xs arbitrary: cur) (auto split: if_splits)

lemma os_makedirs_keeps_Dir:
  "os_makedirs p w = (r, w') \<Longrightarrow> files w q = Some Dir \<Longrightarrow> files w' q = Some Dir"
  by (auto simp: os_makedirs_def split: if_splits prod.splits option.splits
      dest: ensure_dirs_keeps)

lemma with_open_write_keeps_Dir:
  "with_open_write p s w = (r, w') \<Longrightarrow> files w q = Some Dir \<Longrightarrow> files w' q = Some Dir"
  by (auto simp: with_open_write_eq split: option.splits dest: open_target_not_Dir)

lemma perform_keeps_Dir:
  "perform x w = (r, w') \<Longrightarrow> files w q = Some Dir \<Longrightarrow> files w' q = Some Dir"
  by (cases x) (auto dest: os_makedirs_keeps_Dir with_open_write_keeps_Dir)

lemma perform_until_error_keeps_Dir:
  "perform_until_error xs w = (r, w') \<Longrightarrow> files w q = Some Dir \<Longrightarrow> files w' q = Some Dir"
proof (induction xs arbitrary: w)
  case Nil
  then show ?case by simp
next
  case (Cons x xs)
  obtain r1 w1 where p: "perform x w = (r1, w1)" by (cases "perform x w")
  from perform_keeps_Dir [OF p Cons.prems(2)] have q: "files w1 q = Some Dir" .
  show ?case
  proof (cases r1)
    case (Inl e)
    with Cons.prems p q show ?thesis by simp
  next
    case (Inr v)
    with Cons.prems p have "perform_until_error xs w1 = (r, w')" by simp
    from Cons.IH [OF this q] show ?thesis .
  qed
qed








subsection \<open>The nodes of a description on disk\<close>

















subsection \<open>Evaluation\<close>

text \<open>
  The components of a path computed from the right, and the definitions a run on a
  given world unfolds.
\<close>

lemma split_sep_eval:
  "split_sep (c # cs) =
     (case split_sep cs of
        x # xs \<Rightarrow> if c = CHR ''/'' then [] # x # xs else (c # x) # xs
      | [] \<Rightarrow> [])"
  using split_sep_not_Nil [of cs] by (cases "split_sep cs") simp_all

lemmas evals = split_sep_eval with_open_write_eq open_target_def home_world_def start_dir_def
  encode_char_def encode_utf8_def os_path_join_def os_makedirs_def print_def Let_def

subsection \<open>Errors\<close>





subsection \<open>The open file\<close>

text \<open>
  Claim C9. \<open>open\<close> adds the file it opens to the open files of the process. The
  \<open>with\<close> statement of the file branch leaves the open files as it found them on
  every path: when \<open>open\<close> raises, when \<open>write\<close> raises and when the block
  ends. So does the whole walk.
\<close>

theorem with_open_write_releases:
  "open_files (snd (os_open_w caminho w)) =
     (case fst (os_open_w caminho w) of
        Inl e \<Rightarrow> open_files w
      | Inr arquivo \<Rightarrow> arquivo # open_files w)
   \<and> open_files (snd (with_open_write caminho conteudo w)) = open_files w
   \<and> open_files (snd (criar_estrutura base_path estrutura w)) = open_files w"
  by (simp add: os_open_w_open_files with_open_write_open_files criar_estrutura_open_files)

subsection \<open>Termination\<close>

text \<open>
  Claim C10. The procedure terminates on every description: the description of each
  recursive call has fewer nodes than the one at hand (this is the measure of the
  termination proof of \<open>criar_estrutura\<close>), and the walk makes one library call
  for each node, \<open>node_count estrutura\<close> calls at most.
\<close>

theorem criar_estrutura_terminates:
  "node_count sub < node_count ((nome, Directory sub) # resto)
   \<and> node_count resto < node_count ((nome, conteudo) # resto)
   \<and> length (walk_ops base_path estrutura) = node_count estrutura
   \<and> criar_estrutura base_path estrutura w
       = perform_until_error (walk_ops base_path estrutura) w"
  by (simp add: length_walk_ops criar_estrutura_walk)

subsection \<open>The nodes after a run\<close>




subsection \<open>Files that exist before the run\<close>





subsection \<open>The bytes of a file\<close>






subsection \<open>The file branch creates no directory\<close>

lemma open_target_parent: "parent_dir w p = None \<Longrightarrow> open_target w p = None"
  by (simp add: open_target_def parent_dir_def)

lemma with_open_write_Dir:
  "files (snd (with_open_write p s w)) q = Some Dir \<longleftrightarrow> files w q = Some Dir"
  by (auto simp: with_open_write_eq dest: open_target_not_Dir split: option.splits if_splits)

lemma walk_ops_Makedirs:
  "Makedirs p \<in> set (walk_ops b t) \<Longrightarrow> \<exists>sub. (p, Directory sub) \<in> set (tree_paths b t)"
proof (induction b t rule: walk_ops.induct)
  case (1 base_path)
  then show ?case by simp
next
  case (2 base_path nome conteudo resto)
  show ?case
  proof (cases conteudo)
    case (File s)
    with "2.prems" have "Makedirs p \<in> set (walk_ops base_path resto)" by (simp add: Let_def)
    from "2.IH"(1) [OF refl File this] show ?thesis by (auto simp: Let_def)
  next
    case (Directory sub)
    with "2.prems" consider "p = os_path_join base_path nome"
      | "Makedirs p \<in> set (walk_ops (os_path_join base_path nome) sub)"
      | "Makedirs p \<in> set (walk_ops base_path resto)" by (auto simp: Let_def)
    then show ?thesis
    proof cases
      case 1
      with Directory show ?thesis by (auto simp: Let_def)
    next
      case 2
      from "2.IH"(2) [OF refl Directory this] Directory show ?thesis by (auto simp: Let_def)
    next
      case 3
      from "2.IH"(3) [OF refl Directory this] Directory show ?thesis by (auto simp: Let_def)
    qed
  qed
qed

text \<open>
  Claim C6. The \<open>with\<close> statement of the file branch makes no directory and
  removes none. A file node whose path has no parent directory at the time of the write
  makes the procedure raise the error of \<open>open\<close>, and nothing is changed. A call of
  the walk after which a directory exists that did not exist before is a call of
  \<open>os.makedirs\<close>, and every such call of the walk is the creation of a
  directory node at its path: only the directory branch (and the script, for the base
  directory) makes one.
\<close>

theorem file_branch_creates_no_directory:
  "(files (snd (with_open_write caminho s w)) q = Some Dir \<longleftrightarrow> files w q = Some Dir)
   \<and> (parent_dir w (os_path_join base_path nome) = None \<longrightarrow>
        criar_estrutura base_path ((nome, File s) # resto) w
          = (Inl (OpenError (os_path_join base_path nome)), w))
   \<and> (perform x w = (r, w') \<and> files w' q = Some Dir \<and> files w q \<noteq> Some Dir
        \<longrightarrow> (\<exists>p. x = Makedirs p))
   \<and> (Makedirs dir_path \<in> set (walk_ops base_path estrutura)
        \<longrightarrow> (\<exists>sub. (dir_path, Directory sub) \<in> set (tree_paths base_path estrutura)))"
proof (intro conjI impI)
  show "files (snd (with_open_write caminho s w)) q = Some Dir \<longleftrightarrow> files w q = Some Dir"
    by (rule with_open_write_Dir)
next
  assume "parent_dir w (os_path_join base_path nome) = None"
  then have "open_target w (os_path_join base_path nome) = None" by (rule open_target_parent)
  then show "criar_estrutura base_path ((nome, File s) # resto) w
          = (Inl (OpenError (os_path_join base_path nome)), w)"
    by (simp add: Let_def with_open_write_eq)
next
  assume a: "perform x w = (r, w') \<and> files w' q = Some Dir \<and> files w q \<noteq> Some Dir"
  show "\<exists>p. x = Makedirs p"
  proof (cases x)
    case (Makedirs p)
    then show ?thesis by simp
  next
    case (Write p s')
    with a have "with_open_write p s' w = (r, w')" by simp
    then have "files (snd (with_open_write p s' w)) q = files w' q" by simp
    with a with_open_write_Dir [of p s' w q] show ?thesis by simp
  qed
next
  assume "Makedirs dir_path \<in> set (walk_ops base_path estrutura)"
  then show "\<exists>sub. (dir_path, Directory sub) \<in> set (tree_paths base_path estrutura)"
    by (rule walk_ops_Makedirs)
qed

theorem file_branch_creates_no_directory_witness:
  "parent_dir (home_world UTF8 Writable) (os_path_join ''./out'' ''a.txt'') = None
   \<and> criar_estrutura ''./out'' [(''a.txt'', File [104, 105])] (home_world UTF8 Writable)
       = (Inl (OpenError ''./out/a.txt''), home_world UTF8 Writable)
   \<and> files (home_world UTF8 Writable) [''home'', ''out''] = None
   \<and> files (snd (perform (Makedirs ''./out'') (home_world UTF8 Writable))) [''home'', ''out'']
       = Some Dir
   \<and> Makedirs ''./out/sub'' \<in> set (walk_ops ''./out'' [(''sub'', Directory [])])
   \<and> (\<exists>sub. (''./out/sub'', Directory sub)
          \<in> set (tree_paths ''./out'' [(''sub'', Directory [])]))"
proof -
  have 1: "parent_dir (home_world UTF8 Writable) (os_path_join ''./out'' ''a.txt'') = None"
    by (simp add: parent_dir_def evals del: split_sep.simps(2))
  have 2: "os_path_join ''./out'' ''a.txt'' = ''./out/a.txt''" by (simp add: evals)
  have 3: "files (home_world UTF8 Writable) [''home'', ''out''] = None
    \<and> files (snd (perform (Makedirs ''./out'') (home_world UTF8 Writable))) [''home'', ''out'']
       = Some Dir"
    by (simp add: evals del: split_sep.simps(2))
  have 4: "Makedirs ''./out/sub'' \<in> set (walk_ops ''./out'' [(''sub'', Directory [])])"
    by (simp add: evals)
  from file_branch_creates_no_directory [where base_path = "''./out''" and nome = "''a.txt''"
      and s = "[104, 105]" and resto = "[]" and w = "home_world UTF8 Writable"
      and x = "Makedirs ''./out''" and q = "[''home'', ''out'']"
      and r = "fst (perform (Makedirs ''./out'') (home_world UTF8 Writable))"
      and w' = "snd (perform (Makedirs ''./out'') (home_world UTF8 Writable))"
      and dir_path = "''./out/sub''" and estrutura = "[(''sub'', Directory [])]"] 1 2 3 4
  show ?thesis by simp
qed

subsection \<open>Running the procedure again\<close>

text \<open>
  A second run starts from the files the first run left. While it runs, every location
  holds what it held at the same point of the first run or what the first run left in
  the end, and a location keeps its kind (directory or file) from the first run on.
  Under this invariant each call of the second run ends as it did in the first: a
  directory creation finds the directories it made, a write finds its file, and the call
  that raised raises again.
\<close>

lemma between_same: "(\<And>p. n p = m p \<or> n p = m p) \<Longrightarrow> n = m"
  by (rule ext) simp

lemma ensure_dirs_again_ok:
  assumes "ensure_dirs ro cur xs m = (Some d, m1)"
    and "\<And>p. m1 p = Some Dir \<Longrightarrow> F p = Some Dir"
    and "\<And>p. n p = m p \<or> n p = F p"
  shows "\<exists>n'. ensure_dirs ro cur xs n = (Some d, n') \<and> (\<forall>p. n' p = m1 p \<or> n' p = F p)"
  using assms
proof (induction xs arbitrary: cur m n)
  case Nil
  from Nil.prems(1) have c: "m cur = Some Dir" and d: "d = cur" and m1: "m1 = m"
    by (auto split: if_splits)
  from c m1 Nil.prems(2) have "F cur = Some Dir" by simp
  with c Nil.prems(3) [of cur] have "n cur = Some Dir" by auto
  with d m1 Nil.prems(3) show ?case by simp
next
  case (Cons x xs)
  note keep = ensure_dirs_keeps [OF Cons.prems(1)]
  from ensure_dirs_start_Dir [OF Cons.prems(1)] have c: "m cur = Some Dir" .
  from keep [OF c] Cons.prems(2) have "F cur = Some Dir" by simp
  with c Cons.prems(3) [of cur] have nc: "n cur = Some Dir" by auto
  consider (stay) "x = [] \<or> x = ''.''" | (up) "x = ''..''"
    | (down) "x \<noteq> []" "x \<noteq> ''.''" "x \<noteq> ''..''" by blast
  then show ?case
  proof cases
    case stay
    with Cons.prems(1) c have r: "ensure_dirs ro cur xs m = (Some d, m1)" by auto
    have e: "ensure_dirs ro cur (x # xs) n = ensure_dirs ro cur xs n" using stay nc by auto
    show ?thesis unfolding e by (rule Cons.IH [OF r Cons.prems(2) Cons.prems(3)])
  next
    case up
    with Cons.prems(1) c have r: "ensure_dirs ro (butlast cur) xs m = (Some d, m1)" by auto
    have e: "ensure_dirs ro cur (x # xs) n = ensure_dirs ro (butlast cur) xs n"
      using up nc by auto
    show ?thesis unfolding e by (rule Cons.IH [OF r Cons.prems(2) Cons.prems(3)])
  next
    case down
    with Cons.prems(1) c have nul: "CHR 0x00 \<notin> set x" by (auto split: if_splits)
    show ?thesis
    proof (cases "m (cur @ [x])")
      case None
      with Cons.prems(1) c down nul have ro: "cur \<notin> set ro"
        and r: "ensure_dirs ro (cur @ [x]) xs (m(cur @ [x] \<mapsto> Dir)) = (Some d, m1)"
        by (auto split: if_splits)
      from ensure_dirs_keeps [OF r, of "cur @ [x]" Dir] have "m1 (cur @ [x]) = Some Dir" by simp
      with Cons.prems(2) have Fx: "F (cur @ [x]) = Some Dir" by simp
      with None Cons.prems(3) [of "cur @ [x]"]
      have "n (cur @ [x]) = None \<or> n (cur @ [x]) = Some Dir" by auto
      then show ?thesis
      proof
        assume nn: "n (cur @ [x]) = None"
        have b: "\<And>p. (n(cur @ [x] \<mapsto> Dir)) p = (m(cur @ [x] \<mapsto> Dir)) p
                   \<or> (n(cur @ [x] \<mapsto> Dir)) p = F p"
          using Cons.prems(3) by simp
        have e: "ensure_dirs ro cur (x # xs) n
                   = ensure_dirs ro (cur @ [x]) xs (n(cur @ [x] \<mapsto> Dir))"
          using down nul nc nn ro by simp
        show ?thesis unfolding e by (rule Cons.IH [OF r Cons.prems(2) b])
      next
        assume nd: "n (cur @ [x]) = Some Dir"
        have b: "\<And>p. n p = (m(cur @ [x] \<mapsto> Dir)) p \<or> n p = F p"
          using Cons.prems(3) nd Fx by simp
        have e: "ensure_dirs ro cur (x # xs) n = ensure_dirs ro (cur @ [x]) xs n"
          using down nul nc nd by simp
        show ?thesis unfolding e by (rule Cons.IH [OF r Cons.prems(2) b])
      qed
    next
      case (Some a)
      show ?thesis
      proof (cases a)
        case Dir
        with Some Cons.prems(1) c down nul
        have r: "ensure_dirs ro (cur @ [x]) xs m = (Some d, m1)" by auto
        from keep [of "cur @ [x]" Dir] Some Dir Cons.prems(2) have "F (cur @ [x]) = Some Dir"
          by simp
        with Some Dir Cons.prems(3) [of "cur @ [x]"] have nd: "n (cur @ [x]) = Some Dir"
          by auto
        have e: "ensure_dirs ro cur (x # xs) n = ensure_dirs ro (cur @ [x]) xs n"
          using down nul nc nd by simp
        show ?thesis unfolding e by (rule Cons.IH [OF r Cons.prems(2) Cons.prems(3)])
      next
        case (Reg bs)
        with Some Cons.prems(1) c down nul show ?thesis by auto
      qed
    qed
  qed
qed

lemma between_eq:
  assumes "\<And>p. n p = m p \<or> n p = m1 p" and "m1 = m"
  shows "n = m"
proof (rule ext)
  fix p
  from assms(1) [of p] assms(2) show "n p = m p" by auto
qed

lemma ensure_dirs_again_fails:
  assumes "ensure_dirs ro cur xs m = (None, m1)"
    and "\<And>p. n p = m p \<or> n p = m1 p"
  shows "ensure_dirs ro cur xs n = (None, m1)"
  using assms
proof (induction xs arbitrary: cur m n)
  case Nil
  from Nil.prems(1) have "m1 = m" by (auto split: if_splits)
  from between_eq [OF Nil.prems(2) this] have nm: "n = m" .
  show ?case unfolding nm by (rule Nil.prems(1))
next
  case (Cons x xs)
  note keep = ensure_dirs_keeps [OF Cons.prems(1)]
  have now: ?case if "m1 = m"
  proof -
    from between_eq [OF Cons.prems(2) that] have nm: "n = m" .
    show ?thesis unfolding nm by (rule Cons.prems(1))
  qed
  show ?case
  proof (cases "m cur = Some Dir")
    case False
    with Cons.prems(1) have "m1 = m" by auto
    then show ?thesis by (rule now)
  next
    case c: True
    from keep [OF c] c Cons.prems(2) [of cur] have nc: "n cur = Some Dir" by auto
    consider (stay) "x = [] \<or> x = ''.''" | (up) "x = ''..''"
      | (down) "x \<noteq> []" "x \<noteq> ''.''" "x \<noteq> ''..''" by blast
    then show ?thesis
    proof cases
      case stay
      with Cons.prems(1) c have r: "ensure_dirs ro cur xs m = (None, m1)" by auto
      have e: "ensure_dirs ro cur (x # xs) n = ensure_dirs ro cur xs n" using stay nc by auto
      show ?thesis unfolding e by (rule Cons.IH [OF r Cons.prems(2)])
    next
      case up
      with Cons.prems(1) c have r: "ensure_dirs ro (butlast cur) xs m = (None, m1)" by auto
      have e: "ensure_dirs ro cur (x # xs) n = ensure_dirs ro (butlast cur) xs n"
        using up nc by auto
      show ?thesis unfolding e by (rule Cons.IH [OF r Cons.prems(2)])
    next
      case down
      show ?thesis
      proof (cases "CHR 0x00 \<in> set x")
        case True
        with Cons.prems(1) c down have "m1 = m" by auto
        then show ?thesis by (rule now)
      next
        case nul: False
        show ?thesis
        proof (cases "m (cur @ [x])")
          case None
          show ?thesis
          proof (cases "cur \<in> set ro")
            case True
            with None Cons.prems(1) c down nul have "m1 = m" by auto
            then show ?thesis by (rule now)
          next
            case ro: False
            with None Cons.prems(1) c down nul
            have r: "ensure_dirs ro (cur @ [x]) xs (m(cur @ [x] \<mapsto> Dir)) = (None, m1)"
              by auto
            from ensure_dirs_keeps [OF r, of "cur @ [x]" Dir]
            have Fx: "m1 (cur @ [x]) = Some Dir" by simp
            with None Cons.prems(2) [of "cur @ [x]"]
            have "n (cur @ [x]) = None \<or> n (cur @ [x]) = Some Dir" by auto
            then show ?thesis
            proof
              assume nn: "n (cur @ [x]) = None"
              have b: "\<And>p. (n(cur @ [x] \<mapsto> Dir)) p = (m(cur @ [x] \<mapsto> Dir)) p
                   \<or> (n(cur @ [x] \<mapsto> Dir)) p = m1 p"
                using Cons.prems(2) by simp
              have e: "ensure_dirs ro cur (x # xs) n
                   = ensure_dirs ro (cur @ [x]) xs (n(cur @ [x] \<mapsto> Dir))"
                using down nul nc nn ro by simp
              show ?thesis unfolding e by (rule Cons.IH [OF r b])
            next
              assume nd: "n (cur @ [x]) = Some Dir"
              have b: "\<And>p. n p = (m(cur @ [x] \<mapsto> Dir)) p \<or> n p = m1 p"
                using Cons.prems(2) nd Fx by simp
              have e: "ensure_dirs ro cur (x # xs) n = ensure_dirs ro (cur @ [x]) xs n"
                using down nul nc nd by simp
              show ?thesis unfolding e by (rule Cons.IH [OF r b])
            qed
          qed
        next
          case (Some a)
          show ?thesis
          proof (cases a)
            case Dir
            with Some Cons.prems(1) c down nul
            have r: "ensure_dirs ro (cur @ [x]) xs m = (None, m1)" by auto
            from keep [of "cur @ [x]" Dir] Some Dir Cons.prems(2) [of "cur @ [x]"]
            have nd: "n (cur @ [x]) = Some Dir" by auto
            have e: "ensure_dirs ro cur (x # xs) n = ensure_dirs ro (cur @ [x]) xs n"
              using down nul nc nd by simp
            show ?thesis unfolding e by (rule Cons.IH [OF r Cons.prems(2)])
          next
            case (Reg bs)
            with Some Cons.prems(1) c down nul have "m1 = m" by auto
            then show ?thesis by (rule now)
          qed
        qed
      qed
    qed
  qed
qed

lemma start_dir_files: "start_dir (w\<lparr>files := n\<rparr>) p = start_dir w p"
  by (simp add: start_dir_def)

lemma open_target_again:
  assumes "open_target w p = Some t"
    and "\<And>q. files w q = Some Dir \<Longrightarrow> n q = Some Dir"
    and "n t = files w t \<or> (\<exists>y. n t = Some (Reg y))"
  shows "open_target (w\<lparr>files := n\<rparr>) p = Some t"
proof -
  from assms(1) obtain d where nul: "CHR 0x00 \<notin> set p"
    and d: "walk_dirs (files w) (start_dir w p) (butlast (split_sep p)) = Some d"
    by (auto simp: open_target_def split: if_splits option.splits)
  let ?n = "last (split_sep p)"
  from assms(1) nul d have l: "?n \<noteq> []" "?n \<noteq> ''.''" "?n \<noteq> ''..''"
    and t: "t = d @ [?n]"
    and f: "(\<exists>y. files w t = Some (Reg y)) \<or> (files w t = None \<and> d \<notin> set (readonly w))"
    by (auto simp: open_target_def Let_def split: if_splits option.splits entry.splits)
  have d': "walk_dirs n (start_dir w p) (butlast (split_sep p)) = Some d"
    using d assms(2) by (rule walk_dirs_mono)
  from f assms(3) have "(\<exists>y. n t = Some (Reg y)) \<or> (n t = None \<and> d \<notin> set (readonly w))"
    by auto
  with nul d' l t show ?thesis
    by (auto simp: open_target_def start_dir_files Let_def)
qed

lemma os_makedirs_again_ok:
  assumes "os_makedirs p w = (Inr (), w1)"
    and "\<And>q. files w1 q = Some Dir \<Longrightarrow> F q = Some Dir"
    and "\<And>q. n q = files w q \<or> n q = F q"
  shows "\<exists>n'. os_makedirs p (w\<lparr>files := n\<rparr>) = (Inr (), w1\<lparr>files := n'\<rparr>)
           \<and> (\<forall>q. n' q = files w1 q \<or> n' q = F q)"
proof -
  from assms(1) obtain d where ne: "p \<noteq> []"
    and e: "ensure_dirs (readonly w) (start_dir w p) (split_sep p) (files w) = (Some d, files w1)"
    by (auto simp: os_makedirs_def split: if_splits prod.splits option.splits)
  from ensure_dirs_again_ok [OF e assms(2) assms(3)] obtain n' where
    n: "ensure_dirs (readonly w) (start_dir w p) (split_sep p) n = (Some d, n')"
    and b: "\<forall>q. n' q = files w1 q \<or> n' q = F q" by blast
  have w1: "w1 = w\<lparr>files := files w1\<rparr>" using assms(1) by (rule os_makedirs_frame)
  have "os_makedirs p (w\<lparr>files := n\<rparr>) = (Inr (), w\<lparr>files := n'\<rparr>)"
    using ne n by (simp add: os_makedirs_def start_dir_files)
  also have "w\<lparr>files := n'\<rparr> = w1\<lparr>files := n'\<rparr>" by (subst w1) simp
  finally show ?thesis using b by blast
qed

lemma os_makedirs_again_fails:
  assumes "os_makedirs p w = (Inl e, w1)"
    and "\<And>q. n q = files w q \<or> n q = files w1 q"
  shows "os_makedirs p (w\<lparr>files := n\<rparr>) = (Inl e, w1)"
proof (cases "p = []")
  case True
  with assms(1) have w1: "w1 = w" by (simp add: os_makedirs_def)
  then have "files w1 = files w" by simp
  from between_eq [OF assms(2) this] have "w\<lparr>files := n\<rparr> = w" by simp
  with assms(1) show ?thesis by simp
next
  case False
  with assms(1) have e: "e = MakedirsError p"
    and r: "ensure_dirs (readonly w) (start_dir w p) (split_sep p) (files w) = (None, files w1)"
    by (auto simp: os_makedirs_def split: if_splits prod.splits option.splits)
  from ensure_dirs_again_fails [OF r assms(2)]
  have n: "ensure_dirs (readonly w) (start_dir w p) (split_sep p) n = (None, files w1)" .
  have w1: "w1 = w\<lparr>files := files w1\<rparr>" using assms(1) by (rule os_makedirs_frame)
  have "os_makedirs p (w\<lparr>files := n\<rparr>) = (Inl e, w\<lparr>files := files w1\<rparr>)"
    using False n e by (simp add: os_makedirs_def start_dir_files)
  with w1 show ?thesis by simp
qed

lemma with_open_write_again_ok:
  assumes "with_open_write p s w = (Inr (), w1)"
    and "\<And>q. files w1 q = Some Dir \<Longrightarrow> F q = Some Dir"
    and "\<And>q x. files w1 q = Some (Reg x) \<Longrightarrow> \<exists>y. F q = Some (Reg y)"
    and "\<And>q. n q = files w q \<or> n q = F q"
  shows "\<exists>n'. with_open_write p s (w\<lparr>files := n\<rparr>) = (Inr (), w1\<lparr>files := n'\<rparr>)
           \<and> (\<forall>q. n' q = files w1 q \<or> n' q = F q)"
proof -
  from assms(1) obtain t where t: "open_target w p = Some t"
    by (cases "open_target w p") (simp_all add: with_open_write_eq)
  from assms(1) t obtain bs where bs: "encode (encoding w) s = Some bs"
    by (cases "encode (encoding w) s") (simp_all add: with_open_write_eq)
  from assms(1) t bs have w1: "w1 = w\<lparr>files := (files w)(t \<mapsto> Reg bs)\<rparr>"
    by (simp add: with_open_write_eq)
  from open_target_not_Dir [OF t] have nd: "files w t \<noteq> Some Dir" .
  have f1: "files w1 q = files w q" if "q \<noteq> t" for q using w1 that by simp
  have ft: "files w1 t = Some (Reg bs)" using w1 by simp
  from assms(3) [OF ft] obtain y where Ft: "F t = Some (Reg y)" by blast
  have dir: "n q = Some Dir" if "files w q = Some Dir" for q
  proof -
    from that nd have "q \<noteq> t" by auto
    with that f1 have "files w1 q = Some Dir" by simp
    from assms(2) [OF this] that assms(4) [of q] show ?thesis by auto
  qed
  from assms(4) [of t] Ft have "n t = files w t \<or> (\<exists>y. n t = Some (Reg y))" by auto
  from open_target_again [where n = n, OF t dir this]
  have "open_target (w\<lparr>files := n\<rparr>) p = Some t" .
  with bs have "with_open_write p s (w\<lparr>files := n\<rparr>) = (Inr (), w\<lparr>files := n(t \<mapsto> Reg bs)\<rparr>)"
    by (simp add: with_open_write_eq)
  also have "w\<lparr>files := n(t \<mapsto> Reg bs)\<rparr> = w1\<lparr>files := n(t \<mapsto> Reg bs)\<rparr>"
    by (subst w1) simp
  finally have 1: "with_open_write p s (w\<lparr>files := n\<rparr>)
      = (Inr (), w1\<lparr>files := n(t \<mapsto> Reg bs)\<rparr>)" .
  have 2: "(n(t \<mapsto> Reg bs)) q = files w1 q \<or> (n(t \<mapsto> Reg bs)) q = F q" for q
  proof (cases "q = t")
    case True
    with ft show ?thesis by simp
  next
    case False
    with f1 [OF False] assms(4) [of q] show ?thesis by simp
  qed
  from 1 2 show ?thesis by blast
qed

lemma with_open_write_again_fails:
  assumes "with_open_write p s w = (Inl e, w1)"
    and "\<And>q. n q = files w q \<or> n q = files w1 q"
  shows "with_open_write p s (w\<lparr>files := n\<rparr>) = (Inl e, w1)"
proof (cases "open_target w p")
  case None
  with assms(1) have "w1 = w" by (simp add: with_open_write_eq)
  then have "files w1 = files w" by simp
  from between_eq [OF assms(2) this] have "w\<lparr>files := n\<rparr> = w" by simp
  with assms(1) show ?thesis by simp
next
  case (Some t)
  with assms(1) have en: "encode (encoding w) s = None"
    by (cases "encode (encoding w) s") (simp_all add: with_open_write_eq)
  with assms(1) Some have e: "e = EncodeError s"
    and w1: "w1 = w\<lparr>files := (files w)(t \<mapsto> Reg [])\<rparr>"
    by (simp_all add: with_open_write_eq)
  from open_target_not_Dir [OF Some] have nd: "files w t \<noteq> Some Dir" .
  have f1: "files w1 q = files w q" if "q \<noteq> t" for q using w1 that by simp
  have ft: "files w1 t = Some (Reg [])" using w1 by simp
  have dir: "n q = Some Dir" if "files w q = Some Dir" for q
  proof -
    from that nd have "q \<noteq> t" by auto
    with that f1 assms(2) [of q] show ?thesis by auto
  qed
  from assms(2) [of t] ft have "n t = files w t \<or> (\<exists>y. n t = Some (Reg y))" by auto
  from open_target_again [where n = n, OF Some dir this]
  have "open_target (w\<lparr>files := n\<rparr>) p = Some t" .
  with en e have 1: "with_open_write p s (w\<lparr>files := n\<rparr>)
      = (Inl e, w\<lparr>files := n(t \<mapsto> Reg [])\<rparr>)"
    by (simp add: with_open_write_eq)
  have "n(t \<mapsto> Reg []) = (files w)(t \<mapsto> Reg [])"
  proof (rule ext)
    fix q
    show "(n(t \<mapsto> Reg [])) q = ((files w)(t \<mapsto> Reg [])) q"
      using f1 [of q] assms(2) [of q] by (cases "q = t") auto
  qed
  with 1 w1 show ?thesis by simp
qed

lemma perform_again_ok:
  assumes "perform x w = (Inr (), w1)"
    and "\<And>q. files w1 q = Some Dir \<Longrightarrow> F q = Some Dir"
    and "\<And>q y. files w1 q = Some (Reg y) \<Longrightarrow> \<exists>y'. F q = Some (Reg y')"
    and "\<And>q. n q = files w q \<or> n q = F q"
  shows "\<exists>n'. perform x (w\<lparr>files := n\<rparr>) = (Inr (), w1\<lparr>files := n'\<rparr>)
           \<and> (\<forall>q. n' q = files w1 q \<or> n' q = F q)"
proof (cases x)
  case (Makedirs p)
  with assms(1) have "os_makedirs p w = (Inr (), w1)" by simp
  from os_makedirs_again_ok [OF this assms(2) assms(4)] Makedirs show ?thesis by simp
next
  case (Write p s)
  with assms(1) have "with_open_write p s w = (Inr (), w1)" by simp
  from with_open_write_again_ok [OF this assms(2) assms(3) assms(4)] Write show ?thesis by simp
qed

lemma perform_again_fails:
  assumes "perform x w = (Inl e, w1)"
    and "\<And>q. n q = files w q \<or> n q = files w1 q"
  shows "perform x (w\<lparr>files := n\<rparr>) = (Inl e, w1)"
proof (cases x)
  case (Makedirs p)
  with assms(1) have "os_makedirs p w = (Inl e, w1)" by simp
  from os_makedirs_again_fails [OF this assms(2)] Makedirs show ?thesis by simp
next
  case (Write p s)
  with assms(1) have "with_open_write p s w = (Inl e, w1)" by simp
  from with_open_write_again_fails [OF this assms(2)] Write show ?thesis by simp
qed

lemma perform_keeps_Reg:
  assumes "perform x w = (r, w')" and "files w q = Some (Reg y)"
  shows "\<exists>y'. files w' q = Some (Reg y')"
proof (cases x)
  case (Makedirs p)
  with assms(1) have "os_makedirs p w = (r, w')" by simp
  with assms(2) show ?thesis
    by (auto simp: os_makedirs_def split: if_splits prod.splits option.splits
        dest: ensure_dirs_keeps)
next
  case (Write p s)
  with assms(1) have "with_open_write p s w = (r, w')" by simp
  with assms(2) show ?thesis
    by (cases "q = the (open_target w p)") (auto simp: with_open_write_eq split: option.splits)
qed

lemma perform_until_error_keeps_Reg:
  "perform_until_error xs w = (r, w') \<Longrightarrow> files w q = Some (Reg y)
     \<Longrightarrow> \<exists>y'. files w' q = Some (Reg y')"
proof (induction xs arbitrary: w y)
  case Nil
  then show ?case by simp
next
  case (Cons x xs)
  obtain r1 w1 where p: "perform x w = (r1, w1)" by (cases "perform x w")
  from perform_keeps_Reg [OF p Cons.prems(2)] obtain y1 where y1: "files w1 q = Some (Reg y1)"
    by blast
  show ?case
  proof (cases r1)
    case (Inl e)
    with p Cons.prems(1) have "w' = w1" by simp
    with y1 show ?thesis by simp
  next
    case (Inr v)
    with p Cons.prems(1) have "perform_until_error xs w1 = (r, w')" by simp
    from Cons.IH [OF this y1] show ?thesis .
  qed
qed

lemma perform_until_error_again:
  assumes "perform_until_error xs w = (r, wF)"
    and "\<And>q. n q = files w q \<or> n q = files wF q"
  shows "perform_until_error xs (w\<lparr>files := n\<rparr>) = (r, wF)"
  using assms
proof (induction xs arbitrary: w n)
  case Nil
  then have wF: "wF = w" and r: "r = Inr ()" by simp_all
  then have "files wF = files w" by simp
  from between_eq [OF Nil.prems(2) this] have "w\<lparr>files := n\<rparr> = w" by simp
  with wF r show ?case by simp
next
  case (Cons x xs)
  obtain r1 w1 where p: "perform x w = (r1, w1)" by (cases "perform x w")
  show ?case
  proof (cases r1)
    case (Inl e)
    with p Cons.prems(1) have wF: "wF = w1" and r: "r = Inl e" by simp_all
    from p Inl have pe: "perform x w = (Inl e, w1)" by simp
    have b: "\<And>q. n q = files w q \<or> n q = files w1 q" using Cons.prems(2) wF by simp
    from perform_again_fails [where n = n, OF pe b]
    have "perform x (w\<lparr>files := n\<rparr>) = (Inl e, w1)" .
    with wF r show ?thesis by simp
  next
    case (Inr v)
    with p have p': "perform x w = (Inr (), w1)" by simp
    with Cons.prems(1) have rest: "perform_until_error xs w1 = (r, wF)" by simp
    have d: "\<And>q. files w1 q = Some Dir \<Longrightarrow> files wF q = Some Dir"
      using rest by (rule perform_until_error_keeps_Dir)
    have g: "\<And>q y. files w1 q = Some (Reg y) \<Longrightarrow> \<exists>y'. files wF q = Some (Reg y')"
      using rest by (rule perform_until_error_keeps_Reg)
    have "\<exists>n'. perform x (w\<lparr>files := n\<rparr>) = (Inr (), w1\<lparr>files := n'\<rparr>)
           \<and> (\<forall>q. n' q = files w1 q \<or> n' q = files wF q)"
      by (rule perform_again_ok [where F = "files wF" and n = n, OF p'])
        (erule d, erule g, rule Cons.prems(2))
    then obtain n' where
      1: "perform x (w\<lparr>files := n\<rparr>) = (Inr (), w1\<lparr>files := n'\<rparr>)"
      and 2: "\<And>q. n' q = files w1 q \<or> n' q = files wF q" by blast
    from Cons.IH [where n = n', OF rest 2] 1 show ?thesis by simp
  qed
qed

text \<open>
  Claim C4. Running the procedure a second time, on the world the first run left, with
  the same description and base path, gives the result of the first run (the same
  error, if the first run raised) and leaves the world as the first run left it: the
  directories are untouched and every file has the content it had after the first run.
\<close>

theorem criar_estrutura_idempotent:
  "criar_estrutura base_path estrutura (snd (criar_estrutura base_path estrutura w))
     = criar_estrutura base_path estrutura w"
proof -
  obtain r wF where c: "criar_estrutura base_path estrutura w = (r, wF)"
    by (cases "criar_estrutura base_path estrutura w")
  then have p: "perform_until_error (walk_ops base_path estrutura) w = (r, wF)"
    by (simp add: criar_estrutura_walk)
  have f: "wF = w\<lparr>files := files wF\<rparr>" using c by (rule criar_estrutura_frame)
  have "perform_until_error (walk_ops base_path estrutura) (w\<lparr>files := files wF\<rparr>) = (r, wF)"
    by (rule perform_until_error_again [where n = "files wF", OF p]) simp
  with f have "perform_until_error (walk_ops base_path estrutura) wF = (r, wF)" by simp
  with c show ?thesis by (simp add: criar_estrutura_walk)
qed

subsection \<open>The entries the script creates\<close>

lemma frame_stdout:
  "w' = w\<lparr>files := m\<rparr> \<Longrightarrow> stdout w' = stdout w \<and> sys_stdout w' = sys_stdout w"
  by simp

lemma script_eq:
  assumes "os_makedirs diretorio_base w = (r1, w1)"
    and "criar_estrutura diretorio_base estrutura_projeto w1 = (r2, w2)"
  shows "script w =
     (case r1 of Inl e \<Rightarrow> (Inl e, w1)
      | Inr _ \<Rightarrow> (case r2 of Inl e \<Rightarrow> (Inl e, w2) | Inr _ \<Rightarrow> print mensagem w2))"
    and "stdout w2 = stdout w" and "sys_stdout w2 = sys_stdout w"
    and "stdout w1 = stdout w"
proof -
  show "script w =
     (case r1 of Inl e \<Rightarrow> (Inl e, w1)
      | Inr _ \<Rightarrow> (case r2 of Inl e \<Rightarrow> (Inl e, w2) | Inr _ \<Rightarrow> print mensagem w2))"
    using assms by (simp add: script_def split: sum.splits)
  have 1: "stdout w1 = stdout w \<and> sys_stdout w1 = sys_stdout w"
    using os_makedirs_frame [OF assms(1)] by (rule frame_stdout)
  have 2: "stdout w2 = stdout w1 \<and> sys_stdout w2 = sys_stdout w1"
    using criar_estrutura_frame [OF assms(2)] by (rule frame_stdout)
  from 1 2 show "stdout w2 = stdout w" "sys_stdout w2 = sys_stdout w" "stdout w1 = stdout w"
    by simp_all
qed










subsection \<open>The message\<close>

text \<open>
  Claim C8. The script prints the message exactly when the creation of the base
  directory and the whole walk completed without error and the standard output takes
  the line; in every other run, so in every run in which a directory creation or a file
  write raises, the standard output is what it was. The script ends without error
  exactly when the walk completed and \<open>print\<close> did not raise.
\<close>

theorem script_prints_when_writable:
  "stdout (snd (script w)) =
     (if (\<exists>w1 w2. os_makedirs diretorio_base w = (Inr (), w1)
            \<and> criar_estrutura diretorio_base estrutura_projeto w1 = (Inr (), w2))
         \<and> sys_stdout w = Writable
      then stdout w @ [mensagem] else stdout w)
   \<and> (fst (script w) = Inr () \<longleftrightarrow>
        (\<exists>w1 w2. os_makedirs diretorio_base w = (Inr (), w1)
           \<and> criar_estrutura diretorio_base estrutura_projeto w1 = (Inr (), w2))
        \<and> sys_stdout w \<noteq> Unwritable)"
proof -
  obtain r1 w1 where m: "os_makedirs diretorio_base w = (r1, w1)"
    by (cases "os_makedirs diretorio_base w")
  obtain r2 w2 where c: "criar_estrutura diretorio_base estrutura_projeto w1 = (r2, w2)"
    by (cases "criar_estrutura diretorio_base estrutura_projeto w1")
  note s = script_eq [OF m c]
  show ?thesis
  proof (cases r1)
    case (Inl e)
    with m s show ?thesis by simp
  next
    case r1: (Inr v)
    show ?thesis
    proof (cases r2)
      case (Inl e)
      with r1 m c s show ?thesis by simp
    next
      case (Inr v')
      with r1 m c s show ?thesis
        by (cases "sys_stdout w") (simp_all add: print_def)
    qed
  qed
qed

text \<open>
  The walk alone does not decide. Started without a standard output (the descriptor
  closed), the script creates everything and ends without error, and no message is
  printed.
\<close>

theorem script_silent_without_stdout:
  "fst (os_makedirs diretorio_base (home_world UTF8 Missing)) = Inr ()
   \<and> fst (criar_estrutura diretorio_base estrutura_projeto
            (snd (os_makedirs diretorio_base (home_world UTF8 Missing)))) = Inr ()
   \<and> fst (script (home_world UTF8 Missing)) = Inr ()
   \<and> stdout (snd (script (home_world UTF8 Missing))) = []"
  by (simp add: script_def diretorio_base_def estrutura_projeto_def u_def evals
      del: split_sep.simps(2))

end
